theory Spec2Isabelle
  imports Main
begin

section \<open>Errors\<close>

text \<open>
  The source raises only JavaScript's built-in \<open>TypeError\<close>: explicitly in the argument
  guards of \<open>use\<close>, \<open>parse\<close> and \<open>run\<close> (with an \<open>Illegal invocation\<close> message), and
  implicitly when the engine is asked to construct something that is not a constructor,
  to call a method that an object does not have, or to write a property of \<open>undefined\<close>.
  Every other exception comes from an external collaborator (the parser, a plugin) and
  is carried as \<open>Thrown\<close>.
\<close>

datatype error = TypeError string | Thrown string

fun is_TypeError :: "error \<Rightarrow> bool" where
  "is_TypeError (TypeError m) = True"
| "is_TypeError (Thrown x) = False"

section \<open>The concrete syntax tree\<close>

text \<open>
  A JavaScript object used as a mapping: its own enumerable properties, in enumeration
  order, and the enumerable properties it inherits through its prototype chain.
\<close>

datatype 'v jsobject = JSObject (own: "(string \<times> 'v) list") (inherited: "(string \<times> 'v) list")

text \<open>
  A CST node. \<open>cst_children = None\<close> means that the key \<open>children\<close> is absent
  (\<open>'children' in cst\<close> is false); likewise for \<open>value\<close> and \<open>data\<close>. An entry of the
  children array is \<open>Some c\<close> for a node object (always truthy) and \<open>None\<close> for a
  falsy value such as \<open>null\<close> or \<open>undefined\<close>.
\<close>

datatype 'v cst = CST (cst_type: string) (cst_children: "'v cst option list option")
  (cst_value: "string option") (cst_data: "'v jsobject option")

section \<open>The object model\<close>

text \<open>
  Modelled from the spec: the object model library (\<open>textom\<close>) is an external
  collaborator, not part of the source. Its nodes support \<open>append(child)\<close>,
  \<open>fromString(text)\<close> and a mutable \<open>data\<close> namespace, so a node is its variant, its
  children, its textual content and the own keys of its data namespace. The source
  can also come to hold an object that is no node: \<open>Other_object\<close> is what \<open>new\<close>
  returns for a constructor that builds no node. It has no \<open>append\<close>, no \<open>fromString\<close>
  and no \<open>data\<close>.
\<close>

datatype 'v node =
    Node (variant: string) (children: "'v node list") (content: "string option")
      (data: "string \<rightharpoonup> 'v")
  | Other_object
where
  "variant Other_object = []"
| "children Other_object = []"
| "content Other_object = None"
| "data Other_object = Map.empty"

text \<open>
  The object model is a JavaScript object and \<open>TextOM[name]\<close> is a property read, which
  finds own and inherited members alike: \<open>None\<close> is \<open>undefined\<close>, a member is the
  constructor of a node variant, another function that \<open>new\<close> accepts (such as the
  inherited \<open>constructor\<close>), or a value that \<open>new\<close> rejects (an object, a built-in method).
\<close>

datatype member = Node_constructor string | Other_constructor | Not_a_constructor

type_synonym object_model = "string \<rightharpoonup> member"

text \<open>
  \<open>new TextOM[cst.type]()\<close>. Modelled from the spec: a node constructor instantiates an
  empty node of its variant. On \<open>undefined\<close> and on a value that is no constructor the
  engine throws a \<open>TypeError\<close>; its message is the engine's own, here that of V8.
\<close>

fun js_new :: "member option \<Rightarrow> error + 'v node" where
  "js_new (Some (Node_constructor ctor)) = Inr (Node ctor [] None Map.empty)"
| "js_new (Some Other_constructor) = Inr Other_object"
| "js_new (Some Not_a_constructor) = Inl (TypeError ''TextOM[cst.type] is not a constructor'')"
| "js_new None = Inl (TypeError ''TextOM[cst.type] is not a constructor'')"

text \<open>
  \<open>node.append(child)\<close>. Modelled from the spec: a node adds the child after the children
  that it already has. On an object without \<open>append\<close> the call throws a \<open>TypeError\<close>.
\<close>

fun append_node :: "'v node \<Rightarrow> 'v node \<Rightarrow> error + 'v node" where
  "append_node (Node v cs t d) child = Inr (Node v (cs @ [child]) t d)"
| "append_node Other_object child = Inl (TypeError ''node.append is not a function'')"

text \<open>
  \<open>node.fromString(text)\<close>. Modelled from the spec: a node takes the text as its textual
  content; \<open>None\<close> is \<open>undefined\<close>, what \<open>cst.value\<close> reads when the key is absent. On an
  object without \<open>fromString\<close> the call throws a \<open>TypeError\<close>.
\<close>

fun fromString :: "'v node \<Rightarrow> string option \<Rightarrow> error + 'v node" where
  "fromString (Node v cs t d) text = Inr (Node v cs text d)"
| "fromString Other_object text = Inl (TypeError ''node.fromString is not a function'')"

text \<open>
  The assignment \<open>node.data[attribute] = v\<close> of the source. The data namespace of a node
  is an ordinary object, so the assignment stores an own key, except for the key
  \<open>__proto__\<close>: that one is an accessor which every ordinary object inherits, the
  assignment runs its setter and no own key is stored. On an object without \<open>data\<close> the
  assignment throws a \<open>TypeError\<close>.
\<close>

fun set_data :: "'v node \<Rightarrow> string \<Rightarrow> 'v option \<Rightarrow> error + 'v node" where
  "set_data (Node v cs t d) attribute x =
     Inr (if attribute = ''__proto__'' then Node v cs t d else Node v cs t (d(attribute := x)))"
| "set_data Other_object attribute x =
     Inl (TypeError ''Cannot set properties of undefined'')"

section \<open>JavaScript property access\<close>

text \<open>\<open>xs[i]\<close>: reading past the end of an array yields \<open>undefined\<close>, which is falsy.\<close>

definition js_index :: "'a option list \<Rightarrow> nat \<Rightarrow> 'a option" where
  "js_index xs i = (if i < length xs then xs ! i else None)"

text \<open>\<open>has.call(obj, k)\<close>, that is \<open>Object.prototype.hasOwnProperty\<close>.\<close>

definition has :: "'v jsobject \<Rightarrow> string \<Rightarrow> bool" where
  "has obj k = (k \<in> set (map fst (own obj)))"

text \<open>\<open>obj[k]\<close>: an own property shadows an inherited one; \<open>None\<close> is \<open>undefined\<close>.\<close>

definition js_get :: "'v jsobject \<Rightarrow> string \<Rightarrow> 'v option" where
  "js_get obj k = (case map_of (own obj) k of Some v \<Rightarrow> Some v | None \<Rightarrow> map_of (inherited obj) k)"

text \<open>
  The keys \<open>for (k in obj)\<close> visits: each enumerable key once, own keys first, then the
  inherited keys that no own key shadows.
\<close>

definition for_in :: "'v jsobject \<Rightarrow> string list" where
  "for_in obj = remdups (map fst (own obj)) @
     filter (\<lambda>k. k \<notin> set (map fst (own obj))) (remdups (map fst (inherited obj)))"

section \<open>The tree builder\<close>

text \<open>
  The loop \<open>while (children[++index]) node.append(fromCST(TextOM, children[index]))\<close>.
  The argument \<open>i\<close> is the value of \<open>index\<close> after the increment, so the loop starts at
  \<open>0\<close>. The argument of \<open>append\<close> is evaluated before the call, so an exception of the
  recursive call comes first; either exception leaves the loop and the function.
\<close>

function append_loop ::
  "('c \<Rightarrow> error + 'v node) \<Rightarrow> 'v node \<Rightarrow> 'c option list \<Rightarrow> nat \<Rightarrow> error + 'v node" where
  "append_loop build node cs i =
     (case js_index cs i of
        None \<Rightarrow> Inr node
      | Some child \<Rightarrow>
          (case build child of
             Inl e \<Rightarrow> Inl e
           | Inr n \<Rightarrow>
               (case append_node node n of
                  Inl e \<Rightarrow> Inl e
                | Inr node' \<Rightarrow> append_loop build node' cs (Suc i))))"
  by pat_completeness auto
termination
  by (relation "measure (\<lambda>(build, node, cs, i). length cs - i)")
     (auto simp: js_index_def split: if_splits)

declare append_loop.simps [simp del]

lemma js_index_Some_mem: "js_index cs i = Some c \<Longrightarrow> Some c \<in> set cs"
  unfolding js_index_def by (metis nth_mem option.distinct(1))

lemma append_loop_cong [fundef_cong]:
  assumes "cs = cs'" "node = node'" "i = i'"
    and "\<And>c. Some c \<in> set cs' \<Longrightarrow> f c = g c"
  shows "append_loop f node cs i = append_loop g node' cs' i'"
  unfolding assms(1-3) using assms(4)
proof (induction g node' cs' i' rule: append_loop.induct)
  case (1 build node cs i)
  show ?case
  proof (cases "js_index cs i")
    case None
    then show ?thesis by (simp add: append_loop.simps [of _ _ cs i])
  next
    case (Some child)
    then have mem: "Some child \<in> set cs"
      by (rule js_index_Some_mem)
    have eq: "f child = build child" using "1.prems" mem by blast
    show ?thesis
    proof (cases "build child")
      case (Inl e)
      with Some eq show ?thesis by (simp add: append_loop.simps [of _ _ cs i])
    next
      case built: (Inr n)
      show ?thesis
      proof (cases "append_node node n")
        case (Inl e)
        with Some eq built show ?thesis by (simp add: append_loop.simps [of _ _ cs i])
      next
        case (Inr node')
        have "append_loop f node' cs (Suc i) = append_loop build node' cs (Suc i)"
          using "1.IH" [OF Some built Inr] "1.prems" by blast
        with Some eq built Inr show ?thesis by (simp add: append_loop.simps [of _ _ cs i])
      qed
    qed
  qed
qed

text \<open>
  The loop \<open>for (attribute in data) if (has.call(data, attribute))
  node.data[attribute] = data[attribute]\<close>, over the keys that \<open>for_in\<close> enumerates.
\<close>

fun copy_data :: "'v jsobject \<Rightarrow> string list \<Rightarrow> 'v node \<Rightarrow> error + 'v node" where
  "copy_data obj [] node = Inr node"
| "copy_data obj (attribute # rest) node =
     (if has obj attribute then
        (case set_data node attribute (js_get obj attribute) of
           Inl e \<Rightarrow> Inl e
         | Inr node' \<Rightarrow> copy_data obj rest node')
      else copy_data obj rest node)"

text \<open>
  \<open>fromCST\<close>: construct, then append the children or set the content, then copy the
  data, and return the node.
\<close>

lemma size_child_less:
  "Some c \<in> set cs \<Longrightarrow> size c < Suc (size_list (size_option size) cs)"
  by (induction cs) auto

function fromCST :: "object_model \<Rightarrow> 'v cst \<Rightarrow> error + 'v node" where
  "fromCST TextOM cst =
     (case js_new (TextOM (cst_type cst)) of
        Inl e \<Rightarrow> Inl e
      | Inr new_node \<Rightarrow>
          (case (case cst_children cst of
                   Some cs \<Rightarrow> append_loop (fromCST TextOM) new_node cs 0
                 | None \<Rightarrow> fromString new_node (cst_value cst)) of
             Inl e \<Rightarrow> Inl e
           | Inr node \<Rightarrow>
               (case cst_data cst of
                  Some d \<Rightarrow> copy_data d (for_in d) node
                | None \<Rightarrow> Inr node)))"
  by pat_completeness auto
termination
proof (relation "measure (\<lambda>(TextOM, cst). size cst)", goal_cases)
  case 1
  show ?case by simp
next
  case (2 TextOM cst new_node cs c)
  then show ?case
    using size_child_less [of c cs] by (cases cst) auto
qed

declare fromCST.simps [simp del]

text \<open>
  The same loop written by recursion on the entries it visits, and the truthiness test
  of its condition; they are used to state what the loop computes.
\<close>

fun append_each :: "('c \<Rightarrow> error + 'v node) \<Rightarrow> 'v node \<Rightarrow> 'c list \<Rightarrow> error + 'v node" where
  "append_each build node [] = Inr node"
| "append_each build node (c # cs) =
     (case build c of
        Inl e \<Rightarrow> Inl e
      | Inr n \<Rightarrow>
          (case append_node node n of
             Inl e \<Rightarrow> Inl e
           | Inr node' \<Rightarrow> append_each build node' cs))"

definition truthy :: "'a option \<Rightarrow> bool" where
  "truthy x = (x \<noteq> None)"

text \<open>A well-formed CST node has \<open>children\<close> or \<open>value\<close>, never both and never neither.\<close>

definition well_formed :: "'v cst \<Rightarrow> bool" where
  "well_formed cst = ((cst_children cst \<noteq> None) \<noteq> (cst_value cst \<noteq> None))"

section \<open>Values passed to the public methods\<close>

text \<open>
  The arguments \<open>plugin\<close> and \<open>done\<close> are arbitrary JavaScript values; a function is
  known by its reference, a natural number here. \<open>to_string\<close> is the coercion of
  \<open>'...' + v\<close> in the guards' messages (numbers, symbols and objects with a
  \<open>toString\<close> of their own are left out; the guards never coerce a function, whose
  text stands for its source).
\<close>

datatype jsvalue = JUndefined | JNull | JBoolean bool | JString string | JObject | JFunction nat

fun is_function :: "jsvalue \<Rightarrow> bool" where
  "is_function (JFunction f) = True"
| "is_function v = False"

fun to_string :: "jsvalue \<Rightarrow> string" where
  "to_string JUndefined = ''undefined''"
| "to_string JNull = ''null''"
| "to_string (JBoolean b) = (if b then ''true'' else ''false'')"
| "to_string (JString s) = s"
| "to_string JObject = ''[object Object]''"
| "to_string (JFunction f) = ''function () {}''"

definition breaking_change :: string where
  "breaking_change = CHR 0x0A # ''This breaking change occurred in 0.2.0-rc.1, see GitHub for more information.''"

definition use_message :: "jsvalue \<Rightarrow> string" where
  "use_message plugin = ''Illegal invocation: `'' @ to_string plugin @
     ''` is not a valid argument for `Retext#use(plugin)`''"

definition parse_message :: "jsvalue \<Rightarrow> string" where
  "parse_message done_cb = ''Illegal invocation: `'' @ to_string done_cb @
     ''` is not a valid argument for `Retext#parse(value, done)`.'' @ breaking_change"

definition run_message :: "jsvalue \<Rightarrow> string" where
  "run_message done_cb = ''Illegal invocation: `'' @ to_string done_cb @
     ''` is not a valid argument for `Retext#run(node, done)`.'' @ breaking_change"

section \<open>The processing instance\<close>

text \<open>
  What the instance does to the outside world is recorded in a trace: an \<open>attach\<close> hook
  invoked, the parser invoked, a plugin invoked with a node, the completion callback
  invoked with an error and a node.
\<close>

datatype 'n event = Attached nat | Parsed string | Invoked nat 'n
  | Called_back "error option" "'n option"

record ware =
  fns :: "nat list"

record 'v retext =
  ware :: ware
  parser :: "string \<Rightarrow> error + 'v cst"
  TextOM :: object_model
  trace :: "'v node event list"

text \<open>
  The constructor: \<open>ParseLatin\<close> is the default parser, used when no parser is given.
  \<open>TextOM.parser = parser\<close> makes the parser, an object, a member of the object model
  (the link back, \<open>parser.TextOM\<close>, is not used by the source).
\<close>

definition Retext ::
  "(string \<Rightarrow> error + 'v cst) option \<Rightarrow> (string \<Rightarrow> error + 'v cst) \<Rightarrow> object_model \<Rightarrow> 'v retext" where
  "Retext parser_arg ParseLatin TextOMConstructor =
     \<lparr>ware = \<lparr>fns = []\<rparr>,
      parser = (case parser_arg of None \<Rightarrow> ParseLatin | Some p \<Rightarrow> p),
      TextOM = TextOMConstructor(''parser'' \<mapsto> Not_a_constructor),
      trace = []\<rparr>"

subsection \<open>Plugins\<close>

text \<open>
  A plugin is a function \<open>(node, retext)\<close> or \<open>(node, retext, next)\<close>. A synchronous
  plugin returns (leaving the node as it has mutated it) or throws. An asynchronous one
  mutates the node and then signals over time: it may throw, and it may invoke its
  continuation \<open>next(err, node)\<close>, any number of times or never. Its optional \<open>attach\<close>
  hook receives the instance and may change it, or throw.
\<close>

datatype 'n signal = Throws error | Next "error option" "'n option"

datatype ('n, 'r) plugin_fn =
    Sync "'n \<Rightarrow> 'r \<Rightarrow> error + 'n"
  | Async "'n \<Rightarrow> 'r \<Rightarrow> 'n \<times> 'n signal list"

record 'v plugin =
  attach :: "('v retext \<Rightarrow> error option \<times> 'v retext) option"
  fn :: "('v node, 'v retext) plugin_fn"

subsection \<open>The middleware\<close>

text \<open>
  Modelled from the spec: the middleware library (\<open>ware\<close>) is an external collaborator;
  the source only calls it. \<open>Ware#use\<close> appends a function to the ordered registry
  \<open>fns\<close>.
\<close>

definition ware_use :: "ware \<Rightarrow> nat \<Rightarrow> ware" where
  "ware_use w f = w\<lparr>fns := fns w @ [f]\<rparr>"

text \<open>
  Modelled from the spec: \<open>Ware#run\<close>, the pipeline runner of section 4.3. It executes
  each plugin in registry order against the node and the instance, and waits for an
  asynchronous plugin's continuation before advancing. The first signal of a plugin
  decides its step: a throw or a continuation with an error fails the pipeline, a
  continuation without error advances it, with the replacement node when one is
  supplied. Every later signal of that plugin is ignored. A plugin that never signals
  stalls the pipeline. The result is the trace of the run.
\<close>

datatype 'n resolution = Advance 'n | Fail error

text \<open>
  Modelled from the spec: what one signal of the running plugin does to its step.
  \<open>None\<close> is a step still open; a step that is decided stays as it is.
\<close>

fun deliver :: "'n \<Rightarrow> 'n resolution option \<Rightarrow> 'n signal \<Rightarrow> 'n resolution option" where
  "deliver node (Some r) s = Some r"
| "deliver node None (Throws e) = Some (Fail e)"
| "deliver node None (Next (Some e) n) = Some (Fail e)"
| "deliver node None (Next None None) = Some (Advance node)"
| "deliver node None (Next None (Some n)) = Some (Advance n)"

text \<open>
  Modelled from the spec: the outcome of the signals of a plugin, in the order in which
  it sends them; \<open>None\<close> when it sends none.
\<close>

definition settle :: "'n \<Rightarrow> 'n signal list \<Rightarrow> 'n resolution option" where
  "settle node sigs = foldl (deliver node) None sigs"

text \<open>
  Modelled from the spec: one plugin invoked with the node and the instance. A
  synchronous plugin completes when it returns and fails when it throws.
\<close>

fun invoke :: "('n, 'r) plugin_fn \<Rightarrow> 'n \<Rightarrow> 'r \<Rightarrow> 'n resolution option" where
  "invoke (Sync f) node self =
     (case f node self of Inl e \<Rightarrow> Some (Fail e) | Inr node' \<Rightarrow> Some (Advance node'))"
| "invoke (Async g) node self = (case g node self of (node', sigs) \<Rightarrow> settle node' sigs)"

text \<open>
  Modelled from the spec: the run over the registry. The callback is invoked with
  \<open>(null, node)\<close> when the plugins are exhausted, and with the error and no node when a
  plugin fails; then no further plugin is invoked.
\<close>

fun ware_run :: "(nat \<Rightarrow> ('n, 'r) plugin_fn) \<Rightarrow> nat list \<Rightarrow> 'n \<Rightarrow> 'r \<Rightarrow> 'n event list" where
  "ware_run F [] node self = [Called_back None (Some node)]"
| "ware_run F (p # ps) node self =
     Invoked p node #
       (case invoke (F p) node self of
          None \<Rightarrow> []
        | Some (Fail e) \<Rightarrow> [Called_back (Some e) None]
        | Some (Advance node') \<Rightarrow> ware_run F ps node' self)"

subsection \<open>\<open>use\<close>, \<open>run\<close> and \<open>parse\<close>\<close>

text \<open>
  Each method returns the exception it throws, if any, and the instance as it has
  left it; \<open>P\<close> gives the plugin behind each function reference.
\<close>

definition use :: "(nat \<Rightarrow> 'v plugin) \<Rightarrow> 'v retext \<Rightarrow> jsvalue \<Rightarrow> error option \<times> 'v retext" where
  "use P self plugin =
     (case plugin of
        JFunction f \<Rightarrow>
          if f \<notin> set (fns (ware self)) then
            (let self' = self\<lparr>ware := ware_use (ware self) f\<rparr> in
             case attach (P f) of
               None \<Rightarrow> (None, self')
             | Some hook \<Rightarrow> hook (self'\<lparr>trace := trace self' @ [Attached f]\<rparr>))
          else (None, self)
      | _ \<Rightarrow> (Some (TypeError (use_message plugin)), self))"

definition run ::
  "(nat \<Rightarrow> 'v plugin) \<Rightarrow> 'v retext \<Rightarrow> 'v node \<Rightarrow> jsvalue \<Rightarrow> error option \<times> 'v retext" where
  "run P self node done_cb =
     (if \<not> is_function done_cb then (Some (TypeError (run_message done_cb)), self)
      else (None, self\<lparr>trace := trace self @
              ware_run (\<lambda>f. fn (P f)) (fns (ware self)) node self\<rparr>))"

definition parse ::
  "(nat \<Rightarrow> 'v plugin) \<Rightarrow> 'v retext \<Rightarrow> string \<Rightarrow> jsvalue \<Rightarrow> error option \<times> 'v retext" where
  "parse P self input done_cb =
     (if \<not> is_function done_cb then (Some (TypeError (parse_message done_cb)), self)
      else
        (let self' = self\<lparr>trace := trace self @ [Parsed input]\<rparr> in
         case parser self input of
           Inl e \<Rightarrow> (Some e, self')
         | Inr cst \<Rightarrow>
             (case fromCST (TextOM self) cst of
                Inl e \<Rightarrow> (Some e, self')
              | Inr node \<Rightarrow> run P self' node done_cb)))"

subsection \<open>Reading a trace\<close>

fun invoked_ids :: "'n event list \<Rightarrow> nat list" where
  "invoked_ids [] = []"
| "invoked_ids (Invoked p n # es) = p # invoked_ids es"
| "invoked_ids (e # es) = invoked_ids es"

fun callbacks :: "'n event list \<Rightarrow> (error option \<times> 'n option) list" where
  "callbacks [] = []"
| "callbacks (Called_back e n # es) = (e, n) # callbacks es"
| "callbacks (e # es) = callbacks es"

fun attached_ids :: "'n event list \<Rightarrow> nat list" where
  "attached_ids [] = []"
| "attached_ids (Attached f # es) = f # attached_ids es"
| "attached_ids (e # es) = attached_ids es"

fun parsed_inputs :: "'n event list \<Rightarrow> string list" where
  "parsed_inputs [] = []"
| "parsed_inputs (Parsed s # es) = s # parsed_inputs es"
| "parsed_inputs (e # es) = parsed_inputs es"

text \<open>
  The node that reaches the end of a list of plugins when each of them completes
  without error, \<open>None\<close> when one of them fails or stalls.
\<close>

fun thread :: "(nat \<Rightarrow> ('n, 'r) plugin_fn) \<Rightarrow> nat list \<Rightarrow> 'n \<Rightarrow> 'r \<Rightarrow> 'n option" where
  "thread F [] node self = Some node"
| "thread F (p # ps) node self =
     (case invoke (F p) node self of
        Some (Advance node') \<Rightarrow> thread F ps node' self
      | _ \<Rightarrow> None)"

text \<open>The events that a call has added to the trace of the instance.\<close>

definition new_events :: "'v retext \<Rightarrow> 'v retext \<Rightarrow> 'v node event list" where
  "new_events before after = drop (length (trace before)) (trace after)"

text \<open>
  A plugin signals failure with \<open>e\<close> when it throws \<open>e\<close> synchronously or invokes its
  continuation with the error \<open>e\<close>; for a plugin that signals more than once, that is
  the first thing it signals. It never completes when it takes a continuation and
  signals nothing.
\<close>

definition signals_failure :: "('n, 'r) plugin_fn \<Rightarrow> 'n \<Rightarrow> 'r \<Rightarrow> error \<Rightarrow> bool" where
  "signals_failure pf node self e =
     (case pf of
        Sync f \<Rightarrow> f node self = Inl e
      | Async g \<Rightarrow>
          (case snd (g node self) of
             Throws e' # later \<Rightarrow> e' = e
           | Next (Some e') n # later \<Rightarrow> e' = e
           | _ \<Rightarrow> False))"

definition never_completes :: "('n, 'r) plugin_fn \<Rightarrow> 'n \<Rightarrow> 'r \<Rightarrow> bool" where
  "never_completes pf node self =
     (case pf of Sync f \<Rightarrow> False | Async g \<Rightarrow> snd (g node self) = [])"

text \<open>
  The invocations that a run makes while the plugins of a list complete one after the
  other.
\<close>

fun invocations :: "(nat \<Rightarrow> ('n, 'r) plugin_fn) \<Rightarrow> nat list \<Rightarrow> 'n \<Rightarrow> 'r \<Rightarrow> 'n event list" where
  "invocations F [] node self = []"
| "invocations F (p # ps) node self =
     Invoked p node #
       (case invoke (F p) node self of
          Some (Advance node') \<Rightarrow> invocations F ps node' self
        | _ \<Rightarrow> [])"

section \<open>A worked example\<close>

text \<open>
  What every ordinary object inherits: \<open>constructor\<close> is the function \<open>Object\<close>, which
  \<open>new\<close> accepts; the built-in methods and the prototype itself are no constructors.
\<close>

definition object_prototype :: object_model where
  "object_prototype = [''constructor'' \<mapsto> Other_constructor,
     ''toString'' \<mapsto> Not_a_constructor, ''toLocaleString'' \<mapsto> Not_a_constructor,
     ''valueOf'' \<mapsto> Not_a_constructor, ''hasOwnProperty'' \<mapsto> Not_a_constructor,
     ''isPrototypeOf'' \<mapsto> Not_a_constructor, ''propertyIsEnumerable'' \<mapsto> Not_a_constructor,
     ''__proto__'' \<mapsto> Not_a_constructor]"

text \<open>
  An object model with four node types of its own, and the CST of the text \<open>Cat.\<close>.
\<close>

definition example_TextOM :: object_model where
  "example_TextOM = object_prototype ++
     [''RootNode'' \<mapsto> Node_constructor ''RootNode'',
      ''SentenceNode'' \<mapsto> Node_constructor ''SentenceNode'',
      ''WordNode'' \<mapsto> Node_constructor ''WordNode'',
      ''PunctuationNode'' \<mapsto> Node_constructor ''PunctuationNode'']"

definition example_word :: "nat cst" where
  "example_word = CST ''WordNode'' None (Some ''Cat'') None"

definition example_sentence :: "nat cst" where
  "example_sentence = CST ''SentenceNode''
     (Some [Some example_word, Some (CST ''PunctuationNode'' None (Some ''.'') None)]) None None"

definition example_cst :: "nat cst" where
  "example_cst = CST ''RootNode'' (Some [Some example_sentence]) None None"

definition example_sentence_node :: "nat node" where
  "example_sentence_node = Node ''SentenceNode''
      [Node ''WordNode'' [] (Some ''Cat'') Map.empty,
       Node ''PunctuationNode'' [] (Some ''.'') Map.empty] None Map.empty"

text \<open>
  A \<open>data\<close> object with two own keys and two inherited ones, one of them shadowed, and
  one whose own keys include \<open>__proto__\<close>, as \<open>JSON.parse\<close> makes it from
  \<open>{"__proto__": 5, "lang": 1}\<close>.
\<close>

definition example_data :: "nat jsobject" where
  "example_data = JSObject [(''lang'', 1), (''pos'', 2)] [(''inheritedKey'', 3), (''lang'', 4)]"

definition example_proto_data :: "nat jsobject" where
  "example_proto_data = JSObject [(''__proto__'', 5), (''lang'', 1)] []"

text \<open>The word node built from a word that carries \<open>example_data\<close>.\<close>

definition example_data_node :: "nat node" where
  "example_data_node = Node ''WordNode'' [] (Some ''Cat'') [''lang'' \<mapsto> 1, ''pos'' \<mapsto> 2]"

text \<open>The tree of the text \<open>Cat.\<close>, and the node that plugin \<open>2\<close> below puts in its place.\<close>

definition example_root_node :: "nat node" where
  "example_root_node = Node ''RootNode'' [example_sentence_node] None Map.empty"

definition example_replaced_node :: "nat node" where
  "example_replaced_node = Node ''RootNode'' [] (Some ''replaced'') Map.empty"

text \<open>
  Plugins: every function is a synchronous plugin that leaves the node alone, except
  \<open>2\<close>, asynchronous, which completes with a replacement node; \<open>3\<close>, asynchronous,
  which throws and also calls its continuation; \<open>4\<close>, asynchronous, which never calls
  its continuation; and \<open>5\<close>, whose \<open>attach\<close> hook attaches plugin \<open>1\<close>.
\<close>

definition plain_plugins :: "nat \<Rightarrow> nat plugin" where
  "plain_plugins f = \<lparr>attach = None, fn = Sync (\<lambda>node self. Inr node)\<rparr>"

definition example_hook :: "nat retext \<Rightarrow> error option \<times> nat retext" where
  "example_hook self = use plain_plugins self (JFunction 1)"

definition example_plugins :: "nat \<Rightarrow> nat plugin" where
  "example_plugins f =
     (if f = 2 then
        \<lparr>attach = None,
         fn = Async (\<lambda>node self. (node, [Next None (Some example_replaced_node)]))\<rparr>
      else if f = 3 then
        \<lparr>attach = None,
         fn = Async (\<lambda>node self. (node, [Throws (Thrown ''boom''), Next None None]))\<rparr>
      else if f = 4 then
        \<lparr>attach = None, fn = Async (\<lambda>node self. (node, []))\<rparr>
      else if f = 5 then
        \<lparr>attach = Some example_hook,
         fn = Sync (\<lambda>node self. Inr node)\<rparr>
      else plain_plugins f)"

text \<open>A parser that knows one text, and an instance with a given registry.\<close>

definition example_parser :: "string \<Rightarrow> error + nat cst" where
  "example_parser input =
     (if input = ''Cat.'' then Inr example_cst else Inl (Thrown ''unexpected input''))"

definition example_instance :: "nat list \<Rightarrow> nat retext" where
  "example_instance fs = (Retext (Some example_parser) example_parser example_TextOM)\<lparr>ware := \<lparr>fns = fs\<rparr>\<rparr>"

section \<open>What the tree builder computes\<close>

lemmas fromCST_eval = fromCST.simps append_loop.simps js_index_def
  for_in_def has_def js_get_def

lemma example_TextOM_lookup:
  "example_TextOM ''RootNode'' = Some (Node_constructor ''RootNode'')"
  "example_TextOM ''SentenceNode'' = Some (Node_constructor ''SentenceNode'')"
  "example_TextOM ''WordNode'' = Some (Node_constructor ''WordNode'')"
  "example_TextOM ''PunctuationNode'' = Some (Node_constructor ''PunctuationNode'')"
  "example_TextOM ''constructor'' = Some Other_constructor"
  "example_TextOM ''toString'' = Some Not_a_constructor"
  "example_TextOM ''NoSuchNode'' = None"
  by (simp_all add: example_TextOM_def object_prototype_def)

lemma append_loop_past_end: "length cs \<le> i \<Longrightarrow> append_loop build node cs i = Inr node"
  by (simp add: append_loop.simps [of _ _ cs i] js_index_def)

lemma append_loop_unroll:
  "append_loop build node cs i = append_each build node (map the (takeWhile truthy (drop i cs)))"
proof (induction build node cs i rule: append_loop.induct)
  case (1 build node cs i)
  show ?case
  proof (cases "i < length cs")
    case False
    then show ?thesis by (simp add: append_loop_past_end)
  next
    case True
    then have d: "drop i cs = cs ! i # drop (Suc i) cs"
      by (simp add: Cons_nth_drop_Suc)
    show ?thesis
    proof (cases "cs ! i")
      case None
      with True d show ?thesis
        by (simp add: append_loop.simps [of _ _ cs i] js_index_def truthy_def)
    next
      case (Some child)
      then have j: "js_index cs i = Some child" using True by (simp add: js_index_def)
      show ?thesis
      proof (cases "build child")
        case (Inl e)
        with j d Some show ?thesis
          by (simp add: append_loop.simps [of _ _ cs i] truthy_def)
      next
        case built: (Inr n)
        show ?thesis
        proof (cases "append_node node n")
          case (Inl e)
          with j d Some built show ?thesis
            by (simp add: append_loop.simps [of _ _ cs i] truthy_def)
        next
          case (Inr node')
          from "1.IH" [OF j built Inr] j d Some built Inr show ?thesis
            by (simp add: append_loop.simps [of _ _ cs i] truthy_def)
        qed
      qed
    qed
  qed
qed

lemma append_node_Inr:
  "append_node node n = Inr node' \<Longrightarrow>
     children node' = children node @ [n] \<and> variant node' = variant node
       \<and> content node' = content node \<and> data node' = data node"
  by (cases node) auto

lemma fromString_Inr:
  "fromString node text = Inr node' \<Longrightarrow>
     content node' = text \<and> children node' = children node \<and> variant node' = variant node
       \<and> data node' = data node"
  by (cases node) auto

lemma set_data_Inr:
  "set_data node a x = Inr node' \<Longrightarrow>
     children node' = children node \<and> variant node' = variant node
       \<and> content node' = content node
       \<and> data node' = (if a = ''__proto__'' then data node else (data node)(a := x))"
  by (cases node) auto

lemma js_new_Inr:
  "js_new m = Inr node \<Longrightarrow> children node = [] \<and> content node = None \<and> data node = Map.empty"
  by (cases m rule: js_new.cases) auto

lemma append_each_children:
  "append_each build node cs = Inr node' \<Longrightarrow>
     \<exists>ks. children node' = children node @ ks \<and> map build cs = map Inr ks
       \<and> variant node' = variant node \<and> content node' = content node \<and> data node' = data node"
proof (induction cs arbitrary: node)
  case Nil
  then show ?case by simp
next
  case (Cons c cs)
  from Cons.prems obtain n node1 where n: "build c = Inr n"
    and a: "append_node node n = Inr node1"
    and rest: "append_each build node1 cs = Inr node'"
    by (auto split: sum.splits)
  from Cons.IH [OF rest] n append_node_Inr [OF a] show ?case
    by auto
qed

lemma copy_data_fields:
  "copy_data obj ks node = Inr node' \<Longrightarrow>
     children node' = children node \<and> content node' = content node
       \<and> variant node' = variant node"
proof (induction ks arbitrary: node)
  case Nil
  then show ?case by simp
next
  case (Cons k ks)
  show ?case
  proof (cases "has obj k")
    case False
    with Cons show ?thesis by simp
  next
    case True
    with Cons.prems obtain node1 where s: "set_data node k (js_get obj k) = Inr node1"
      and rest: "copy_data obj ks node1 = Inr node'"
      by (auto split: sum.splits)
    from Cons.IH [OF rest] set_data_Inr [OF s] show ?thesis by simp
  qed
qed

lemma copy_data_data:
  "copy_data obj ks node = Inr node' \<Longrightarrow>
     data node' k =
       (if k \<in> set ks \<and> has obj k \<and> k \<noteq> ''__proto__'' then js_get obj k else data node k)"
proof (induction ks arbitrary: node)
  case Nil
  then show ?case by simp
next
  case (Cons a ks)
  show ?case
  proof (cases "has obj a")
    case False
    with Cons show ?thesis by auto
  next
    case True
    with Cons.prems obtain node1 where s: "set_data node a (js_get obj a) = Inr node1"
      and rest: "copy_data obj ks node1 = Inr node'"
      by (auto split: sum.splits)
    from Cons.IH [OF rest] set_data_Inr [OF s] True show ?thesis by auto
  qed
qed

lemma has_js_get: "has obj k \<Longrightarrow> js_get obj k = map_of (own obj) k"
  by (auto simp: has_def js_get_def split: option.splits)
     (metis map_of_eq_None_iff image_iff fst_conv surj_pair)

lemma has_for_in: "has obj k \<Longrightarrow> k \<in> set (for_in obj)"
  by (auto simp: has_def for_in_def)

lemma not_has: "\<not> has obj k \<Longrightarrow> map_of (own obj) k = None"
  by (simp add: has_def map_of_eq_None_iff)

text \<open>
  The copy loop writes the own keys other than \<open>__proto__\<close> over what the node holds,
  and nothing else.
\<close>

lemma copy_data_for_in:
  assumes "copy_data obj (for_in obj) node = Inr node'"
  shows "data node' k = (if k = ''__proto__'' then data node k
                          else (data node ++ map_of (own obj)) k)"
proof (cases "has obj k")
  case True
  then obtain v where "map_of (own obj) k = Some v"
    by (metis has_def map_of_eq_None_iff not_None_eq set_map)
  with True show ?thesis
    by (simp add: copy_data_data [OF assms] has_for_in has_js_get map_add_def)
next
  case False
  then show ?thesis by (simp add: copy_data_data [OF assms] not_has map_add_def)
qed

text \<open>What a call that returns has gone through.\<close>

lemma fromCST_returns:
  assumes "fromCST model cst = Inr node"
  obtains n0 n where "js_new (model (cst_type cst)) = Inr n0"
    and "(case cst_children cst of
            Some cs \<Rightarrow> append_each (fromCST model) n0 (map the (takeWhile truthy cs))
          | None \<Rightarrow> fromString n0 (cst_value cst)) = Inr n"
    and "(case cst_data cst of Some d \<Rightarrow> copy_data d (for_in d) n | None \<Rightarrow> Inr n) = Inr node"
  using assms
  by (auto simp: fromCST.simps [of model cst] append_loop_unroll
           split: option.splits sum.splits)

text \<open>
  Claim C1. Let \<open>fromCST\<close> return a node for a well-formed CST node. If the CST node
  carries \<open>children\<close>, a sequence of CST nodes, then the children of the built node are
  the nodes that \<open>fromCST\<close> builds from those CST nodes, in the same order. If it does
  not, it carries a \<open>value\<close> and the textual content of the built node is that string.
\<close>

theorem fromCST_children_in_order:
  assumes "well_formed cst" and "fromCST model cst = Inr node"
  shows "(\<forall>cs. cst_children cst = Some cs \<and> list_all truthy cs \<longrightarrow>
            map (fromCST model) (map the cs) = map Inr (children node))
       \<and> (cst_children cst = None \<longrightarrow>
            cst_value cst \<noteq> None \<and> content node = cst_value cst)"
proof -
  from assms(2) obtain n0 n where
    new: "js_new (model (cst_type cst)) = Inr n0"
    and body: "(case cst_children cst of
            Some cs \<Rightarrow> append_each (fromCST model) n0 (map the (takeWhile truthy cs))
          | None \<Rightarrow> fromString n0 (cst_value cst)) = Inr n"
    and node: "(case cst_data cst of Some d \<Rightarrow> copy_data d (for_in d) n | None \<Rightarrow> Inr n)
          = Inr node"
    by (rule fromCST_returns)
  have same: "children node = children n" "content node = content n"
    using node by (auto simp: copy_data_fields split: option.splits)
  show ?thesis
  proof (intro conjI allI impI)
    fix cs assume h: "cst_children cst = Some cs \<and> list_all truthy cs"
    then have "takeWhile truthy cs = cs"
      by (simp add: list_all_iff)
    with body h have "append_each (fromCST model) n0 (map the cs) = Inr n"
      by simp
    from append_each_children [OF this] same js_new_Inr [OF new]
    show "map (fromCST model) (map the cs) = map Inr (children node)"
      by auto
  next
    assume "cst_children cst = None"
    with assms(1) show "cst_value cst \<noteq> None" by (simp add: well_formed_def)
  next
    assume "cst_children cst = None"
    with body same fromString_Inr [of n0 "cst_value cst" n]
    show "content node = cst_value cst"
      by auto
  qed
qed

lemma example_sentence_built:
  "fromCST example_TextOM example_sentence = Inr example_sentence_node"
  by (simp add: example_TextOM_lookup example_sentence_def example_word_def
        example_sentence_node_def fromCST_eval)

lemma example_root_built:
  "fromCST example_TextOM example_cst = Inr example_root_node"
  using example_sentence_built
  by (simp add: example_cst_def example_root_node_def fromCST.simps [of _ "CST _ _ _ _"]
        append_loop.simps js_index_def example_TextOM_lookup)

theorem fromCST_children_in_order_witness:
  "well_formed example_cst \<and> well_formed example_word
   \<and> fromCST example_TextOM example_cst = Inr (Node ''RootNode'' [example_sentence_node] None Map.empty)
   \<and> fromCST example_TextOM example_word = Inr (Node ''WordNode'' [] (Some ''Cat'') Map.empty)
   \<and> cst_children example_cst = Some [Some example_sentence] \<and> list_all truthy [Some example_sentence]
   \<and> map (fromCST example_TextOM) [example_sentence] = map Inr [example_sentence_node]
   \<and> cst_children example_word = None
   \<and> content (Node ''WordNode'' [] (Some ''Cat'') Map.empty :: nat node) = Some ''Cat''"
proof -
  have wf: "well_formed example_cst" "well_formed example_word"
    by (simp_all add: well_formed_def example_cst_def example_word_def)
  have root: "fromCST example_TextOM example_cst
      = Inr (Node ''RootNode'' [example_sentence_node] None Map.empty)"
    using example_root_built by (simp add: example_root_node_def)
  have leaf: "fromCST example_TextOM example_word
      = Inr (Node ''WordNode'' [] (Some ''Cat'') Map.empty)"
    by (simp add: example_TextOM_lookup example_word_def fromCST_eval)
  have ch: "cst_children example_cst = Some [Some example_sentence]"
    "cst_children example_word = None"
    by (simp_all add: example_cst_def example_word_def)
  have tr: "list_all truthy [Some example_sentence]" by (simp add: truthy_def)
  from fromCST_children_in_order [OF wf(1) root] ch(1) tr
  have "map (fromCST example_TextOM) [example_sentence] = map Inr [example_sentence_node]"
    by simp
  moreover from fromCST_children_in_order [OF wf(2) leaf] ch(2)
  have "content (Node ''WordNode'' [] (Some ''Cat'') Map.empty :: nat node) = Some ''Cat''"
    by (simp add: example_word_def)
  ultimately show ?thesis using wf root leaf ch tr by simp
qed

lemma takeWhile_truthy_stop:
  "takeWhile truthy (pre @ None # post) = takeWhile truthy pre"
  by (induction pre) (auto simp: truthy_def)

lemma fromCST_children_unroll:
  "fromCST model (CST t (Some cs) v d) =
     (case js_new (model t) of
        Inl e \<Rightarrow> Inl e
      | Inr n0 \<Rightarrow>
          (case append_each (fromCST model) n0 (map the (takeWhile truthy cs)) of
             Inl e \<Rightarrow> Inl e
           | Inr node \<Rightarrow>
               (case d of Some obj \<Rightarrow> copy_data obj (for_in obj) node | None \<Rightarrow> Inr node)))"
  by (simp add: fromCST.simps [of model "CST t (Some cs) v d"] append_loop_unroll
        split: option.splits sum.splits)

text \<open>
  Claim C9. The loop over \<open>children\<close> runs only while the entry at the current index
  is truthy. A falsy entry ends it: the node is built from the entries before the first
  falsy one, the siblings after it are dropped without being built, and nothing fails
  because of them. The end of the array is found by the same test, since the entry
  read just past the last index is falsy.
\<close>

theorem fromCST_stops_at_falsy_child:
  "fromCST model (CST t (Some (pre @ None # post)) v d)
     = fromCST model (CST t (Some (takeWhile truthy pre)) v d)
   \<and> fromCST model (CST t (Some cs) v d)
     = fromCST model (CST t (Some (takeWhile truthy cs)) v d)
   \<and> \<not> truthy (js_index cs (length cs))"
  by (simp add: fromCST_children_unroll takeWhile_truthy_stop js_index_def
        cong: sum.case_cong) (simp add: truthy_def)

text \<open>
  An instance: the sibling after \<open>null\<close> has a type that is no member of the object
  model, and the call still returns, with the one child before \<open>null\<close>.
\<close>

theorem fromCST_stops_at_falsy_child_example:
  "fromCST example_TextOM
     (CST ''SentenceNode'' (Some [Some example_word, None, Some (CST ''NoSuchNode'' None None None)])
        None None)
   = Inr (Node ''SentenceNode'' [Node ''WordNode'' [] (Some ''Cat'') Map.empty] None Map.empty)"
proof -
  have "fromCST example_TextOM
     (CST ''SentenceNode'' (Some ([Some example_word] @ None # [Some (CST ''NoSuchNode'' None None None)]))
        None None)
    = fromCST example_TextOM
     (CST ''SentenceNode'' (Some (takeWhile truthy [Some example_word])) None None)"
    using fromCST_stops_at_falsy_child by blast
  then show ?thesis
    by (simp add: truthy_def example_TextOM_lookup example_word_def fromCST_eval)
qed

text \<open>
  Claim C10. A CST node that carries \<open>children\<close> is built from its children whatever its
  \<open>value\<close>: the result is the one of the same node without \<open>value\<close>, so the extra key
  raises no error, and the textual content stays unset because \<open>fromString\<close> is not
  invoked. Only a node without the key \<open>children\<close> gets its content from
  \<open>fromString(cst.value)\<close>.
\<close>

theorem fromCST_children_take_precedence:
  "fromCST model (CST t (Some cs) v d) = fromCST model (CST t (Some cs) None d)
   \<and> (fromCST model (CST t (Some cs) v d) = Inr node \<longrightarrow> content node = None)
   \<and> (fromCST model (CST t' None v' d') = Inr node' \<longrightarrow> content node' = v')"
proof (intro conjI impI)
  show "fromCST model (CST t (Some cs) v d) = fromCST model (CST t (Some cs) None d)"
    by (simp add: fromCST_children_unroll)
next
  assume r: "fromCST model (CST t (Some cs) v d) = Inr node"
  from r obtain n0 n where
    new: "js_new (model t) = Inr n0"
    and body: "append_each (fromCST model) n0 (map the (takeWhile truthy cs)) = Inr n"
    and node: "(case d of Some obj \<Rightarrow> copy_data obj (for_in obj) n | None \<Rightarrow> Inr n) = Inr node"
    by (rule fromCST_returns) auto
  from append_each_children [OF body] js_new_Inr [OF new] have "content n = None"
    by auto
  with node show "content node = None"
    by (auto simp: copy_data_fields split: option.splits)
next
  assume r: "fromCST model (CST t' None v' d') = Inr node'"
  from r obtain n0 n where
    body: "fromString n0 v' = Inr n"
    and node: "(case d' of Some obj \<Rightarrow> copy_data obj (for_in obj) n | None \<Rightarrow> Inr n) = Inr node'"
    by (rule fromCST_returns) auto
  from fromString_Inr [OF body] have "content n = v'" by simp
  with node show "content node' = v'"
    by (auto simp: copy_data_fields split: option.splits)
qed

theorem fromCST_children_take_precedence_witness:
  "fromCST example_TextOM (CST ''SentenceNode'' (Some [Some example_word]) (Some ''ignored'') None)
     = Inr (Node ''SentenceNode'' [Node ''WordNode'' [] (Some ''Cat'') Map.empty] None Map.empty)
   \<and> content (Node ''SentenceNode'' [Node ''WordNode'' [] (Some ''Cat'') Map.empty] None Map.empty
        :: nat node) = None
   \<and> fromCST example_TextOM (CST ''WordNode'' None (Some ''Cat'') None)
     = Inr (Node ''WordNode'' [] (Some ''Cat'') Map.empty :: nat node)
   \<and> content (Node ''WordNode'' [] (Some ''Cat'') Map.empty :: nat node) = Some ''Cat''"
proof -
  have a: "fromCST example_TextOM (CST ''SentenceNode'' (Some [Some example_word]) (Some ''ignored'') None)
     = Inr (Node ''SentenceNode'' [Node ''WordNode'' [] (Some ''Cat'') Map.empty] None Map.empty)"
    by (simp add: example_TextOM_lookup example_word_def fromCST_eval)
  have b: "fromCST example_TextOM (CST ''WordNode'' None (Some ''Cat'') None)
     = Inr (Node ''WordNode'' [] (Some ''Cat'') Map.empty :: nat node)"
    by (simp add: example_TextOM_lookup fromCST_eval)
  note t = fromCST_children_take_precedence
    [where model = example_TextOM and t = "''SentenceNode''" and cs = "[Some example_word]"
       and v = "Some ''ignored''" and d = None
       and node = "Node ''SentenceNode'' [Node ''WordNode'' [] (Some ''Cat'') Map.empty] None Map.empty"
       and t' = "''WordNode''" and v' = "Some ''Cat''" and d' = None
       and node' = "Node ''WordNode'' [] (Some ''Cat'') Map.empty"]
  from t a have "content (Node ''SentenceNode'' [Node ''WordNode'' [] (Some ''Cat'') Map.empty]
      None Map.empty :: nat node) = None"
    by blast
  moreover from t b have "content (Node ''WordNode'' [] (Some ''Cat'') Map.empty :: nat node)
      = Some ''Cat''"
    by blast
  ultimately show ?thesis using a b by blast
qed

text \<open>
  What the copy of \<open>data\<close> gives. When the CST node carries \<open>data\<close>, the data namespace
  of the built node holds every own key of that object other than \<open>__proto__\<close>, with
  the object's value for it, and no key that the object only inherits. When the CST
  node carries no \<open>data\<close>, the namespace is empty.
\<close>

lemma fromCST_data:
  assumes "fromCST model cst = Inr node"
  shows "(cst_data cst = Some d \<longrightarrow>
            data node k = (if k = ''__proto__'' then None else map_of (own d) k))
       \<and> (cst_data cst = None \<longrightarrow> data node = Map.empty)"
proof -
  from assms obtain n0 n where
    new: "js_new (model (cst_type cst)) = Inr n0"
    and body: "(case cst_children cst of
            Some cs \<Rightarrow> append_each (fromCST model) n0 (map the (takeWhile truthy cs))
          | None \<Rightarrow> fromString n0 (cst_value cst)) = Inr n"
    and node: "(case cst_data cst of Some d \<Rightarrow> copy_data d (for_in d) n | None \<Rightarrow> Inr n)
          = Inr node"
    by (rule fromCST_returns)
  have empty: "data n = Map.empty"
    using body js_new_Inr [OF new]
    by (auto split: option.splits dest: append_each_children fromString_Inr)
  show ?thesis
  proof (intro conjI impI)
    assume "cst_data cst = Some d"
    with node have "copy_data d (for_in d) n = Inr node" by simp
    from copy_data_for_in [OF this, of k] empty
    show "data node k = (if k = ''__proto__'' then None else map_of (own d) k)"
      by simp
  next
    assume "cst_data cst = None"
    with node empty show "data node = Map.empty" by simp
  qed
qed

lemma fromCST_data_example:
  "fromCST example_TextOM (CST ''WordNode'' None (Some ''Cat'') (Some example_data))
     = Inr example_data_node"
  by (simp add: example_TextOM_lookup example_data_def example_data_node_def fromCST_eval)

text \<open>
  Claim C8 fails on the code. The own key \<open>__proto__\<close> of a \<open>data\<close> object is not
  copied: the loop reaches it, the assignment runs the setter that the data namespace
  inherits, and the namespace of the built node holds the other own key only.
\<close>

theorem fromCST_drops_proto_key:
  "has example_proto_data ''__proto__''
   \<and> js_get example_proto_data ''__proto__'' = Some 5
   \<and> fromCST example_TextOM (CST ''WordNode'' None (Some ''Cat'') (Some example_proto_data))
       = Inr (Node ''WordNode'' [] (Some ''Cat'') [''lang'' \<mapsto> 1])
   \<and> data (Node ''WordNode'' [] (Some ''Cat'') [''lang'' \<mapsto> 1 :: nat]) ''__proto__'' = None"
  by (simp add: example_TextOM_lookup example_proto_data_def fromCST_eval)

text \<open>
  Claim C2, as amended. When the type of the CST node names no member of the object
  model, or one that is no constructor, \<open>fromCST\<close> builds no node, neither of a default
  type nor any other: it fails with the \<open>TypeError\<close> that the engine raises on \<open>new\<close>.
\<close>

theorem fromCST_unknown_type_fails:
  "model (cst_type cst) = None \<or> model (cst_type cst) = Some Not_a_constructor \<Longrightarrow>
     \<exists>m. fromCST model cst = Inl (TypeError m)"
  by (auto simp: fromCST.simps [of model cst])

theorem fromCST_unknown_type_fails_witness:
  "example_TextOM (cst_type (CST ''NoSuchNode'' None (Some ''Cat'') None :: nat cst)) = None
   \<and> fromCST example_TextOM (CST ''NoSuchNode'' None (Some ''Cat'') None :: nat cst)
       = Inl (TypeError ''TextOM[cst.type] is not a constructor'')
   \<and> example_TextOM (cst_type (CST ''toString'' None (Some ''Cat'') None :: nat cst))
       = Some Not_a_constructor
   \<and> fromCST example_TextOM (CST ''toString'' None (Some ''Cat'') None :: nat cst)
       = Inl (TypeError ''TextOM[cst.type] is not a constructor'')"
proof -
  have a: "example_TextOM (cst_type (CST ''NoSuchNode'' None (Some ''Cat'') None :: nat cst)) = None"
    and b: "example_TextOM (cst_type (CST ''toString'' None (Some ''Cat'') None :: nat cst))
       = Some Not_a_constructor"
    by (simp_all add: example_TextOM_lookup)
  from fromCST_unknown_type_fails
    [where model = example_TextOM and cst = "CST ''NoSuchNode'' None (Some ''Cat'') None"] a
  obtain m where
    "fromCST example_TextOM (CST ''NoSuchNode'' None (Some ''Cat'') None :: nat cst)
       = Inl (TypeError m)" by blast
  moreover from fromCST_unknown_type_fails
    [where model = example_TextOM and cst = "CST ''toString'' None (Some ''Cat'') None"] b
  obtain m' where
    "fromCST example_TextOM (CST ''toString'' None (Some ''Cat'') None :: nat cst)
       = Inl (TypeError m')" by blast
  moreover have "fromCST example_TextOM (CST ''NoSuchNode'' None (Some ''Cat'') None :: nat cst)
       = Inl (TypeError ''TextOM[cst.type] is not a constructor'')"
    "fromCST example_TextOM (CST ''toString'' None (Some ''Cat'') None :: nat cst)
       = Inl (TypeError ''TextOM[cst.type] is not a constructor'')"
    by (simp_all add: fromCST.simps example_TextOM_lookup)
  ultimately show ?thesis using a b by simp
qed

text \<open>
  Claim C2 as stated fails: the error for an unknown node type is not of a kind of its
  own. It is a plain \<open>TypeError\<close>, as is the error of the guard of \<open>use\<close>.
\<close>

theorem unknown_type_error_not_distinct:
  "fromCST example_TextOM (CST ''NoSuchNode'' None (Some ''Cat'') None :: nat cst)
     = Inl (TypeError ''TextOM[cst.type] is not a constructor'')
   \<and> fst (use example_plugins (example_instance []) JNull)
     = Some (TypeError ''Illegal invocation: `null` is not a valid argument for `Retext#use(plugin)`'')
   \<and> is_TypeError (projl (fromCST example_TextOM
        (CST ''NoSuchNode'' None (Some ''Cat'') None :: nat cst)))
   \<and> is_TypeError (the (fst (use example_plugins (example_instance []) JNull)))"
  by (simp add: fromCST.simps example_TextOM_lookup use_def use_message_def)

text \<open>
  The lookup of the constructor is a plain property read, so a type that names the
  inherited member \<open>constructor\<close> is not rejected: \<open>new\<close> succeeds, and with an empty
  \<open>children\<close> sequence the call returns an object that is no node.
\<close>

lemma fromCST_inherited_constructor:
  "fromCST example_TextOM (CST ''constructor'' (Some []) None None :: nat cst) = Inr Other_object"
  by (simp add: fromCST.simps example_TextOM_lookup append_loop.simps js_index_def)

section \<open>What the pipeline does\<close>

lemma callbacks_append [simp]: "callbacks (xs @ ys) = callbacks xs @ callbacks ys"
  by (induction xs rule: callbacks.induct) auto

lemma invoked_ids_append [simp]: "invoked_ids (xs @ ys) = invoked_ids xs @ invoked_ids ys"
  by (induction xs rule: invoked_ids.induct) auto

lemma attached_ids_append [simp]: "attached_ids (xs @ ys) = attached_ids xs @ attached_ids ys"
  by (induction xs rule: attached_ids.induct) auto

lemma parsed_inputs_append [simp]: "parsed_inputs (xs @ ys) = parsed_inputs xs @ parsed_inputs ys"
  by (induction xs rule: parsed_inputs.induct) auto

lemma ware_run_callbacks_le: "length (callbacks (ware_run F ps node self)) \<le> 1"
  by (induction ps arbitrary: node) (auto split: option.splits resolution.splits)

lemma ware_run_no_attach: "attached_ids (ware_run F ps node self) = []"
  by (induction ps arbitrary: node) (auto split: option.splits resolution.splits)

lemma ware_run_no_parse: "parsed_inputs (ware_run F ps node self) = []"
  by (induction ps arbitrary: node) (auto split: option.splits resolution.splits)

lemma ware_run_invoked_prefix:
  "\<exists>k. invoked_ids (ware_run F ps node self) = take k ps"
proof (induction ps arbitrary: node)
  case Nil
  then show ?case by simp
next
  case (Cons p ps)
  show ?case
  proof (cases "invoke (F p) node self")
    case None
    then have "invoked_ids (ware_run F (p # ps) node self) = take 1 (p # ps)" by simp
    then show ?thesis by blast
  next
    case (Some r)
    show ?thesis
    proof (cases r)
      case (Fail e)
      with Some have "invoked_ids (ware_run F (p # ps) node self) = take 1 (p # ps)" by simp
      then show ?thesis by blast
    next
      case (Advance node')
      from Cons.IH [of node'] obtain k where "invoked_ids (ware_run F ps node' self) = take k ps"
        by blast
      with Some Advance have "invoked_ids (ware_run F (p # ps) node self) = take (Suc k) (p # ps)"
        by simp
      then show ?thesis by blast
    qed
  qed
qed

lemma invocations_thread:
  "thread F ps node self = Some n \<Longrightarrow>
     invoked_ids (invocations F ps node self) = ps \<and> callbacks (invocations F ps node self) = []
     \<and> length (invocations F ps node self) = length ps"
  by (induction ps arbitrary: node) (auto split: option.splits resolution.splits)

lemma ware_run_after_thread:
  "thread F pre node self = Some n \<Longrightarrow>
     ware_run F (pre @ ps) node self = invocations F pre node self @ ware_run F ps n self"
  by (induction pre arbitrary: node) (auto split: option.splits resolution.splits)

lemma ware_run_fail:
  assumes "thread F pre node self = Some n" and "invoke (F p) n self = Some (Fail e)"
  shows "ware_run F (pre @ p # post) node self
           = invocations F pre node self @ [Invoked p n, Called_back (Some e) None]"
  using assms by (simp add: ware_run_after_thread)

lemma ware_run_stall:
  assumes "thread F pre node self = Some n" and "invoke (F p) n self = None"
  shows "ware_run F (pre @ p # post) node self = invocations F pre node self @ [Invoked p n]"
  using assms by (simp add: ware_run_after_thread)

lemma ware_run_success:
  assumes "thread F ps node self = Some n"
  shows "ware_run F ps node self = invocations F ps node self @ [Called_back None (Some n)]"
  using ware_run_after_thread [OF assms, of "[]"] by simp

lemma ware_run_invoked_after:
  "length pre < length (invoked_ids (ware_run F (pre @ p # post) node self)) \<Longrightarrow>
     \<exists>n. thread F pre node self = Some n
        \<and> ware_run F (pre @ p # post) node self ! length pre = Invoked p n"
proof (induction pre arbitrary: node)
  case Nil
  then show ?case by simp
next
  case (Cons q pre)
  show ?case
  proof (cases "invoke (F q) node self")
    case None
    with Cons.prems show ?thesis by simp
  next
    case (Some r)
    show ?thesis
    proof (cases r)
      case (Fail e)
      with Some Cons.prems show ?thesis by simp
    next
      case (Advance node')
      with Some Cons.prems
      have "length pre < length (invoked_ids (ware_run F (pre @ p # post) node' self))"
        by simp
      from Cons.IH [OF this] Some Advance show ?thesis by simp
    qed
  qed
qed

lemma deliver_settled: "foldl (deliver node) (Some r) sigs = Some r"
  by (induction sigs) auto

lemma settle_Nil: "settle node [] = None"
  by (simp add: settle_def)

lemma settle_Cons: "settle node (s # later) = deliver node None s"
  by (cases "deliver node None s")
     (auto simp: settle_def deliver_settled elim: deliver.elims)

lemma invoke_Fail_iff: "invoke pf node self = Some (Fail e) \<longleftrightarrow> signals_failure pf node self e"
proof (cases pf)
  case (Sync f)
  then show ?thesis by (auto simp: signals_failure_def split: sum.splits)
next
  case (Async g)
  obtain m sigs where g: "g node self = (m, sigs)" by (cases "g node self")
  show ?thesis
  proof (cases sigs)
    case Nil
    with Async g show ?thesis by (simp add: signals_failure_def settle_Nil)
  next
    case (Cons s later)
    with Async g show ?thesis
      by (cases "(m, None :: 'a resolution option, s)" rule: deliver.cases)
         (auto simp: signals_failure_def settle_Cons)
  qed
qed

lemma invoke_None_iff: "invoke pf node self = None \<longleftrightarrow> never_completes pf node self"
proof (cases pf)
  case (Sync f)
  then show ?thesis by (auto simp: never_completes_def split: sum.splits)
next
  case (Async g)
  obtain m sigs where g: "g node self = (m, sigs)" by (cases "g node self")
  show ?thesis
  proof (cases sigs)
    case Nil
    with Async g show ?thesis by (simp add: never_completes_def settle_Nil)
  next
    case (Cons s later)
    with Async g show ?thesis
      by (cases "(m, None :: 'a resolution option, s)" rule: deliver.cases)
         (auto simp: never_completes_def settle_Cons)
  qed
qed

lemma run_callable:
  "is_function done_cb \<Longrightarrow>
     run P self node done_cb =
       (None, self\<lparr>trace := trace self @ ware_run (\<lambda>f. fn (P f)) (fns (ware self)) node self\<rparr>)"
  by (simp add: run_def)

lemma run_new_events:
  "is_function done_cb \<Longrightarrow>
     new_events self (snd (run P self node done_cb))
       = ware_run (\<lambda>f. fn (P f)) (fns (ware self)) node self"
  by (simp add: run_callable new_events_def)

lemma run_not_callable:
  "\<not> is_function done_cb \<Longrightarrow> run P self node done_cb = (Some (TypeError (run_message done_cb)), self)"
  by (simp add: run_def)

lemma new_events_same [simp]: "new_events self self = []"
  by (simp add: new_events_def)

lemma last_snoc2: "last (xs @ [a, b]) = b"
  by simp

text \<open>
  Claim C3. A call of \<open>run\<close> invokes the callback at most once, whatever the plugins
  signal. When the plugins before \<open>p\<close> have completed and \<open>p\<close> signals failure with
  \<open>e\<close>, the plugins invoked are those up to \<open>p\<close> and no later one, and the callback is
  invoked once, last, with \<open>e\<close> and no node.
\<close>

theorem run_short_circuits:
  "length (callbacks (new_events self (snd (run P self node done_cb)))) \<le> 1
   \<and> (is_function done_cb \<and> fns (ware self) = pre @ p # post
        \<and> thread (\<lambda>f. fn (P f)) pre node self = Some n
        \<and> signals_failure (fn (P p)) n self e \<longrightarrow>
      fst (run P self node done_cb) = None
      \<and> invoked_ids (new_events self (snd (run P self node done_cb))) = pre @ [p]
      \<and> callbacks (new_events self (snd (run P self node done_cb))) = [(Some e, None)]
      \<and> last (new_events self (snd (run P self node done_cb))) = Called_back (Some e) None)"
proof (intro conjI impI)
  show "length (callbacks (new_events self (snd (run P self node done_cb)))) \<le> 1"
    using ware_run_callbacks_le [of "\<lambda>f. fn (P f)" "fns (ware self)" node self]
    by (cases "is_function done_cb") (simp_all add: run_new_events run_not_callable)
next
  assume h: "is_function done_cb \<and> fns (ware self) = pre @ p # post
        \<and> thread (\<lambda>f. fn (P f)) pre node self = Some n
        \<and> signals_failure (fn (P p)) n self e"
  then have f: "invoke (fn (P p)) n self = Some (Fail e)"
    by (simp add: invoke_Fail_iff)
  from h have t: "thread (\<lambda>f. fn (P f)) pre node self = Some n" by simp
  have evs: "new_events self (snd (run P self node done_cb))
      = invocations (\<lambda>f. fn (P f)) pre node self @ [Invoked p n, Called_back (Some e) None]"
    using h ware_run_fail [OF t, of p e post] f by (simp add: run_new_events)
  show "fst (run P self node done_cb) = None" using h by (simp add: run_callable)
  show "invoked_ids (new_events self (snd (run P self node done_cb))) = pre @ [p]"
    using invocations_thread [OF t] by (simp add: evs)
  show "callbacks (new_events self (snd (run P self node done_cb))) = [(Some e, None)]"
    using invocations_thread [OF t] by (simp add: evs)
  show "last (new_events self (snd (run P self node done_cb))) = Called_back (Some e) None"
    unfolding evs by (rule last_snoc2)
qed

lemmas example_eval = example_instance_def Retext_def example_plugins_def plain_plugins_def
  signals_failure_def never_completes_def settle_def

theorem run_short_circuits_witness:
  "is_function (JFunction 0)
   \<and> fns (ware (example_instance [1, 3, 2])) = [1] @ 3 # [2]
   \<and> thread (\<lambda>f. fn (example_plugins f)) [1] example_sentence_node (example_instance [1, 3, 2])
       = Some example_sentence_node
   \<and> signals_failure (fn (example_plugins 3)) example_sentence_node (example_instance [1, 3, 2])
       (Thrown ''boom'')
   \<and> invoked_ids (new_events (example_instance [1, 3, 2])
        (snd (run example_plugins (example_instance [1, 3, 2]) example_sentence_node (JFunction 0))))
       = [1, 3]
   \<and> callbacks (new_events (example_instance [1, 3, 2])
        (snd (run example_plugins (example_instance [1, 3, 2]) example_sentence_node (JFunction 0))))
       = [(Some (Thrown ''boom''), None)]"
proof -
  have h: "is_function (JFunction 0)
     \<and> fns (ware (example_instance [1, 3, 2])) = [1] @ 3 # [2]
     \<and> thread (\<lambda>f. fn (example_plugins f)) [1] example_sentence_node (example_instance [1, 3, 2])
         = Some example_sentence_node
     \<and> signals_failure (fn (example_plugins 3)) example_sentence_node (example_instance [1, 3, 2])
         (Thrown ''boom'')"
    by (simp add: example_eval)
  from run_short_circuits
    [where self = "example_instance [1, 3, 2]" and P = example_plugins
       and node = example_sentence_node and done_cb = "JFunction 0"
       and pre = "[1]" and p = 3 and post = "[2]" and n = example_sentence_node
       and e = "Thrown ''boom''"] h
  show ?thesis by simp
qed

text \<open>
  Claim C4. A call of \<open>run\<close> invokes the plugins in registry order, a prefix of the
  registry. A plugin is invoked only when all its predecessors have completed, and it
  receives the node they have left. When a plugin never calls its continuation, nothing
  is invoked after it, neither a plugin nor the callback. When all plugins complete
  without error, each has been invoked and the callback is invoked once, last, with no
  error and the resulting node.
\<close>

theorem run_sequential:
  "(\<exists>k. invoked_ids (new_events self (snd (run P self node done_cb))) = take k (fns (ware self)))
   \<and> (fns (ware self) = pre @ p # post
        \<and> length pre < length (invoked_ids (new_events self (snd (run P self node done_cb)))) \<longrightarrow>
      (\<exists>n. thread (\<lambda>f. fn (P f)) pre node self = Some n
          \<and> new_events self (snd (run P self node done_cb)) ! length pre = Invoked p n))
   \<and> (is_function done_cb \<and> fns (ware self) = pre' @ q # post'
        \<and> thread (\<lambda>f. fn (P f)) pre' node self = Some m
        \<and> never_completes (fn (P q)) m self \<longrightarrow>
      invoked_ids (new_events self (snd (run P self node done_cb))) = pre' @ [q]
      \<and> callbacks (new_events self (snd (run P self node done_cb))) = [])
   \<and> (is_function done_cb \<and> thread (\<lambda>f. fn (P f)) (fns (ware self)) node self = Some n' \<longrightarrow>
      fst (run P self node done_cb) = None
      \<and> invoked_ids (new_events self (snd (run P self node done_cb))) = fns (ware self)
      \<and> callbacks (new_events self (snd (run P self node done_cb))) = [(None, Some n')]
      \<and> last (new_events self (snd (run P self node done_cb))) = Called_back None (Some n'))"
proof (intro conjI impI)
  show "\<exists>k. invoked_ids (new_events self (snd (run P self node done_cb))) = take k (fns (ware self))"
  proof (cases "is_function done_cb")
    case True
    then show ?thesis by (simp add: run_new_events ware_run_invoked_prefix)
  next
    case False
    then have "invoked_ids (new_events self (snd (run P self node done_cb)))
        = take 0 (fns (ware self))"
      by (simp add: run_not_callable)
    then show ?thesis by blast
  qed
next
  assume h: "fns (ware self) = pre @ p # post
        \<and> length pre < length (invoked_ids (new_events self (snd (run P self node done_cb))))"
  then have f: "fns (ware self) = pre @ p # post"
    and l: "length pre < length (invoked_ids (new_events self (snd (run P self node done_cb))))"
    by simp_all
  from l have c: "is_function done_cb"
    by (cases "is_function done_cb") (simp_all add: run_not_callable)
  with l have "length pre
      < length (invoked_ids (ware_run (\<lambda>f. fn (P f)) (pre @ p # post) node self))"
    by (simp add: run_new_events f)
  from ware_run_invoked_after [OF this] f c
  show "\<exists>n. thread (\<lambda>f. fn (P f)) pre node self = Some n
          \<and> new_events self (snd (run P self node done_cb)) ! length pre = Invoked p n"
    by (simp add: run_new_events)
next
  assume h: "is_function done_cb \<and> fns (ware self) = pre' @ q # post'
        \<and> thread (\<lambda>f. fn (P f)) pre' node self = Some m
        \<and> never_completes (fn (P q)) m self"
  then have t: "thread (\<lambda>f. fn (P f)) pre' node self = Some m"
    and s: "invoke (fn (P q)) m self = None"
    by (simp_all add: invoke_None_iff)
  have evs: "new_events self (snd (run P self node done_cb))
      = invocations (\<lambda>f. fn (P f)) pre' node self @ [Invoked q m]"
    using h ware_run_stall [OF t, of q post'] s by (simp add: run_new_events)
  show "invoked_ids (new_events self (snd (run P self node done_cb))) = pre' @ [q]"
    using invocations_thread [OF t] by (simp add: evs)
  show "callbacks (new_events self (snd (run P self node done_cb))) = []"
    using invocations_thread [OF t] by (simp add: evs)
next
  assume h: "is_function done_cb \<and> thread (\<lambda>f. fn (P f)) (fns (ware self)) node self = Some n'"
  then have t: "thread (\<lambda>f. fn (P f)) (fns (ware self)) node self = Some n'" by simp
  have evs: "new_events self (snd (run P self node done_cb))
      = invocations (\<lambda>f. fn (P f)) (fns (ware self)) node self @ [Called_back None (Some n')]"
    using h ware_run_success [OF t] by (simp add: run_new_events)
  show "fst (run P self node done_cb) = None" using h by (simp add: run_callable)
  show "invoked_ids (new_events self (snd (run P self node done_cb))) = fns (ware self)"
    using invocations_thread [OF t] by (simp add: evs)
  show "callbacks (new_events self (snd (run P self node done_cb))) = [(None, Some n')]"
    using invocations_thread [OF t] by (simp add: evs)
  show "last (new_events self (snd (run P self node done_cb))) = Called_back None (Some n')"
    unfolding evs by simp
qed

theorem run_sequential_witness:
  "is_function (JFunction 0)
   \<and> fns (ware (example_instance [1, 2, 5])) = [1, 2] @ 5 # []
   \<and> thread (\<lambda>f. fn (example_plugins f)) (fns (ware (example_instance [1, 2, 5])))
        example_sentence_node (example_instance [1, 2, 5]) = Some example_replaced_node
   \<and> new_events (example_instance [1, 2, 5])
        (snd (run example_plugins (example_instance [1, 2, 5]) example_sentence_node (JFunction 0)))
       = [Invoked 1 example_sentence_node, Invoked 2 example_sentence_node,
          Invoked 5 example_replaced_node, Called_back None (Some example_replaced_node)]
   \<and> length [1, 2 :: nat] < length (invoked_ids (new_events (example_instance [1, 2, 5])
        (snd (run example_plugins (example_instance [1, 2, 5]) example_sentence_node (JFunction 0)))))
   \<and> fns (ware (example_instance [1, 4, 2])) = [1] @ 4 # [2]
   \<and> thread (\<lambda>f. fn (example_plugins f)) [1] example_sentence_node (example_instance [1, 4, 2])
       = Some example_sentence_node
   \<and> never_completes (fn (example_plugins 4)) example_sentence_node (example_instance [1, 4, 2])
   \<and> invoked_ids (new_events (example_instance [1, 4, 2])
        (snd (run example_plugins (example_instance [1, 4, 2]) example_sentence_node (JFunction 0))))
       = [1, 4]
   \<and> callbacks (new_events (example_instance [1, 4, 2])
        (snd (run example_plugins (example_instance [1, 4, 2]) example_sentence_node (JFunction 0))))
       = []"
proof -
  have a: "is_function (JFunction 0)" by simp
  have b: "fns (ware (example_instance [1, 2, 5])) = [1, 2] @ 5 # []"
    "fns (ware (example_instance [1, 4, 2])) = [1] @ 4 # [2]"
    by (simp_all add: example_eval)
  have c: "thread (\<lambda>f. fn (example_plugins f)) (fns (ware (example_instance [1, 2, 5])))
        example_sentence_node (example_instance [1, 2, 5]) = Some example_replaced_node"
    by (simp add: example_eval example_replaced_node_def)
  have d: "new_events (example_instance [1, 2, 5])
        (snd (run example_plugins (example_instance [1, 2, 5]) example_sentence_node (JFunction 0)))
       = [Invoked 1 example_sentence_node, Invoked 2 example_sentence_node,
          Invoked 5 example_replaced_node, Called_back None (Some example_replaced_node)]"
    by (simp add: run_def new_events_def example_eval example_replaced_node_def)
  have e: "thread (\<lambda>f. fn (example_plugins f)) [1] example_sentence_node (example_instance [1, 4, 2])
       = Some example_sentence_node"
    "never_completes (fn (example_plugins 4)) example_sentence_node (example_instance [1, 4, 2])"
    by (simp_all add: example_eval)
  have f: "length [1, 2 :: nat] < length (invoked_ids (new_events (example_instance [1, 2, 5])
        (snd (run example_plugins (example_instance [1, 2, 5]) example_sentence_node (JFunction 0)))))"
    unfolding d by simp
  note t1 = run_sequential
    [where self = "example_instance [1, 2, 5]" and P = example_plugins
       and node = example_sentence_node and done_cb = "JFunction 0"
       and pre = "[1, 2]" and p = 5 and post = "[]" and n' = example_replaced_node
       and pre' = "[]" and q = 1 and post' = "[2, 5]" and m = example_sentence_node]
  note t2 = run_sequential
    [where self = "example_instance [1, 4, 2]" and P = example_plugins
       and node = example_sentence_node and done_cb = "JFunction 0"
       and pre' = "[1]" and q = 4 and post' = "[2]" and m = example_sentence_node
       and pre = "[]" and p = 1 and post = "[4, 2]" and n' = example_sentence_node]
  from t1 a b(1) c f have "callbacks (new_events (example_instance [1, 2, 5])
        (snd (run example_plugins (example_instance [1, 2, 5]) example_sentence_node (JFunction 0))))
       = [(None, Some example_replaced_node)]"
    by blast
  from t2 a b(2) e have "invoked_ids (new_events (example_instance [1, 4, 2])
        (snd (run example_plugins (example_instance [1, 4, 2]) example_sentence_node (JFunction 0))))
       = [1, 4]
     \<and> callbacks (new_events (example_instance [1, 4, 2])
        (snd (run example_plugins (example_instance [1, 4, 2]) example_sentence_node (JFunction 0))))
       = []"
    by simp
  with a b c d e f show ?thesis by blast
qed

lemma count_list_take_le: "count_list (take k xs) x \<le> count_list xs x"
proof (induction xs arbitrary: k)
  case Nil
  then show ?case by simp
next
  case (Cons a xs)
  show ?case
  proof (cases k)
    case 0
    then show ?thesis by simp
  next
    case (Suc j)
    with Cons.IH [of j] show ?thesis by simp
  qed
qed

lemma count_list_absent: "x \<notin> set xs \<Longrightarrow> count_list xs x = 0"
  by (induction xs) auto

lemma use_present:
  "f \<in> set (fns (ware self)) \<Longrightarrow> use P self (JFunction f) = (None, self)"
  by (simp add: use_def)

lemma use_new_plain:
  "f \<notin> set (fns (ware self)) \<Longrightarrow> attach (P f) = None \<Longrightarrow>
     use P self (JFunction f) = (None, self\<lparr>ware := (ware self)\<lparr>fns := fns (ware self) @ [f]\<rparr>\<rparr>)"
  by (simp add: use_def ware_use_def)

lemma use_new_hook:
  "f \<notin> set (fns (ware self)) \<Longrightarrow> attach (P f) = Some hook \<Longrightarrow>
     use P self (JFunction f) =
       hook (self\<lparr>ware := (ware self)\<lparr>fns := fns (ware self) @ [f]\<rparr>,
                  trace := trace self @ [Attached f]\<rparr>)"
  by (simp add: use_def ware_use_def)

lemma run_attaches_nothing:
  "attached_ids (new_events self (snd (run P self node done_cb))) = []"
  by (cases "is_function done_cb")
     (simp_all add: run_new_events run_not_callable ware_run_no_attach)

lemma parse_new_events:
  "new_events self (snd (parse P self input done_cb)) =
     (if \<not> is_function done_cb then []
      else Parsed input #
        (case parser self input of
           Inl e \<Rightarrow> []
         | Inr cst \<Rightarrow>
             (case fromCST (TextOM self) cst of
                Inl e \<Rightarrow> []
              | Inr node \<Rightarrow>
                  ware_run (\<lambda>f. fn (P f)) (fns (ware self)) node
                    (self\<lparr>trace := trace self @ [Parsed input]\<rparr>))))"
  by (simp add: parse_def new_events_def run_def Let_def split: sum.splits)

lemma parse_attaches_nothing:
  "attached_ids (new_events self (snd (parse P self input done_cb))) = []"
  by (simp add: parse_new_events ware_run_no_attach split: sum.splits)

lemma run_invoked_count:
  "count_list (invoked_ids (new_events self (snd (run P self node done_cb)))) f
     \<le> count_list (fns (ware self)) f"
proof (cases "is_function done_cb")
  case True
  obtain k where "invoked_ids (ware_run (\<lambda>f. fn (P f)) (fns (ware self)) node self)
      = take k (fns (ware self))"
    using ware_run_invoked_prefix [of "\<lambda>f. fn (P f)" "fns (ware self)" node self] by blast
  with True show ?thesis by (simp add: run_new_events count_list_take_le)
next
  case False
  then show ?thesis by (simp add: run_not_callable)
qed

lemma run_invoked_all:
  assumes "is_function done_cb" and "thread (\<lambda>f. fn (P f)) (fns (ware self)) node self = Some n"
  shows "invoked_ids (new_events self (snd (run P self node done_cb))) = fns (ware self)"
  using assms invocations_thread [OF assms(2)]
  by (simp add: run_new_events ware_run_success)

text \<open>
  Claim C5. \<open>use\<close> with a function that the registry already holds changes nothing:
  the registry stays as it is and no \<open>attach\<close> hook is invoked. \<open>use\<close> with a new
  function appends it, once, and then invokes its \<open>attach\<close> hook, if it has one, once
  and with the instance, in which the function is already registered (so that using
  it again from inside the hook changes nothing). Neither \<open>run\<close> nor \<open>parse\<close> invokes
  an \<open>attach\<close> hook. A call of \<open>run\<close>, and likewise a call of \<open>parse\<close>, invokes a
  plugin at most as often as the registry holds it, and exactly once when the registry
  holds it once and every plugin completes (for \<open>parse\<close>: on the tree built from what
  the parser returns).
\<close>

lemma parse_invoked_count:
  "count_list (invoked_ids (new_events self (snd (parse P self input done_cb)))) f
     \<le> count_list (fns (ware self)) f"
proof (cases "is_function done_cb")
  case False
  then show ?thesis by (simp add: parse_new_events)
next
  case True
  show ?thesis
  proof (cases "parser self input")
    case (Inl e)
    with True show ?thesis by (simp add: parse_new_events)
  next
    case parsed: (Inr cst)
    show ?thesis
    proof (cases "fromCST (TextOM self) cst")
      case (Inl e)
      with True parsed show ?thesis by (simp add: parse_new_events)
    next
      case (Inr built)
      obtain k where "invoked_ids (ware_run (\<lambda>f. fn (P f)) (fns (ware self)) built
            (self\<lparr>trace := trace self @ [Parsed input]\<rparr>)) = take k (fns (ware self))"
        using ware_run_invoked_prefix [of "\<lambda>f. fn (P f)" "fns (ware self)" built
            "self\<lparr>trace := trace self @ [Parsed input]\<rparr>"]
        by blast
      with True parsed Inr show ?thesis
        by (simp add: parse_new_events count_list_take_le)
    qed
  qed
qed

lemma parse_invoked_all:
  assumes "is_function done_cb" and "parser self input = Inr cst"
    and "fromCST (TextOM self) cst = Inr built"
    and "thread (\<lambda>f. fn (P f)) (fns (ware self)) built
           (self\<lparr>trace := trace self @ [Parsed input]\<rparr>) = Some n"
  shows "invoked_ids (new_events self (snd (parse P self input done_cb))) = fns (ware self)"
  using assms(1-3) invocations_thread [OF assms(4)]
  by (simp add: parse_new_events ware_run_success [OF assms(4)])

theorem use_attaches_once:
  "(f \<in> set (fns (ware self)) \<longrightarrow> use P self (JFunction f) = (None, self))
   \<and> (f \<notin> set (fns (ware self)) \<and> attach (P f) = None \<longrightarrow>
        use P self (JFunction f)
          = (None, self\<lparr>ware := (ware self)\<lparr>fns := fns (ware self) @ [f]\<rparr>\<rparr>)
        \<and> use P (snd (use P self (JFunction f))) (JFunction f)
          = (None, snd (use P self (JFunction f)))
        \<and> count_list (fns (ware (snd (use P self (JFunction f))))) f = 1)
   \<and> (f \<notin> set (fns (ware self)) \<and> attach (P f) = Some hook \<longrightarrow>
        use P self (JFunction f)
          = hook (self\<lparr>ware := (ware self)\<lparr>fns := fns (ware self) @ [f]\<rparr>,
                       trace := trace self @ [Attached f]\<rparr>)
        \<and> use P (self\<lparr>ware := (ware self)\<lparr>fns := fns (ware self) @ [f]\<rparr>,
                        trace := trace self @ [Attached f]\<rparr>) (JFunction f)
          = (None, self\<lparr>ware := (ware self)\<lparr>fns := fns (ware self) @ [f]\<rparr>,
                         trace := trace self @ [Attached f]\<rparr>))
   \<and> attached_ids (new_events self (snd (run P self node done_cb))) = []
   \<and> attached_ids (new_events self (snd (parse P self input done_cb))) = []
   \<and> count_list (invoked_ids (new_events self (snd (run P self node done_cb)))) f
        \<le> count_list (fns (ware self)) f
   \<and> (is_function done_cb \<and> thread (\<lambda>f. fn (P f)) (fns (ware self)) node self = Some n
        \<and> count_list (fns (ware self)) f = 1 \<longrightarrow>
      count_list (invoked_ids (new_events self (snd (run P self node done_cb)))) f = 1)
   \<and> count_list (invoked_ids (new_events self (snd (parse P self input done_cb)))) f
        \<le> count_list (fns (ware self)) f
   \<and> (is_function done_cb \<and> parser self input = Inr cst
        \<and> fromCST (TextOM self) cst = Inr built
        \<and> thread (\<lambda>f. fn (P f)) (fns (ware self)) built
              (self\<lparr>trace := trace self @ [Parsed input]\<rparr>) = Some n'
        \<and> count_list (fns (ware self)) f = 1 \<longrightarrow>
      count_list (invoked_ids (new_events self (snd (parse P self input done_cb)))) f = 1)"
proof (intro conjI impI)
  assume "f \<in> set (fns (ware self))"
  then show "use P self (JFunction f) = (None, self)" by (rule use_present)
next
  assume h: "f \<notin> set (fns (ware self)) \<and> attach (P f) = None"
  then have u: "use P self (JFunction f)
      = (None, self\<lparr>ware := (ware self)\<lparr>fns := fns (ware self) @ [f]\<rparr>\<rparr>)"
    by (simp add: use_new_plain)
  then show "use P self (JFunction f)
      = (None, self\<lparr>ware := (ware self)\<lparr>fns := fns (ware self) @ [f]\<rparr>\<rparr>)" .
  show "use P (snd (use P self (JFunction f))) (JFunction f)
      = (None, snd (use P self (JFunction f)))"
    unfolding u by (rule use_present) simp
  show "count_list (fns (ware (snd (use P self (JFunction f))))) f = 1"
    unfolding u using h by (simp add: count_list_absent)
next
  assume h: "f \<notin> set (fns (ware self)) \<and> attach (P f) = Some hook"
  then show "use P self (JFunction f)
          = hook (self\<lparr>ware := (ware self)\<lparr>fns := fns (ware self) @ [f]\<rparr>,
                       trace := trace self @ [Attached f]\<rparr>)"
    by (simp add: use_new_hook)
  show "use P (self\<lparr>ware := (ware self)\<lparr>fns := fns (ware self) @ [f]\<rparr>,
                        trace := trace self @ [Attached f]\<rparr>) (JFunction f)
          = (None, self\<lparr>ware := (ware self)\<lparr>fns := fns (ware self) @ [f]\<rparr>,
                         trace := trace self @ [Attached f]\<rparr>)"
    by (rule use_present) simp
next
  show "attached_ids (new_events self (snd (run P self node done_cb))) = []"
    by (rule run_attaches_nothing)
next
  show "attached_ids (new_events self (snd (parse P self input done_cb))) = []"
    by (rule parse_attaches_nothing)
next
  show "count_list (invoked_ids (new_events self (snd (run P self node done_cb)))) f
        \<le> count_list (fns (ware self)) f"
    by (rule run_invoked_count)
next
  assume "is_function done_cb \<and> thread (\<lambda>f. fn (P f)) (fns (ware self)) node self = Some n
        \<and> count_list (fns (ware self)) f = 1"
  then show "count_list (invoked_ids (new_events self (snd (run P self node done_cb)))) f = 1"
    by (simp add: run_invoked_all)
next
  show "count_list (invoked_ids (new_events self (snd (parse P self input done_cb)))) f
        \<le> count_list (fns (ware self)) f"
    by (rule parse_invoked_count)
next
  assume h: "is_function done_cb \<and> parser self input = Inr cst
        \<and> fromCST (TextOM self) cst = Inr built
        \<and> thread (\<lambda>f. fn (P f)) (fns (ware self)) built
              (self\<lparr>trace := trace self @ [Parsed input]\<rparr>) = Some n'
        \<and> count_list (fns (ware self)) f = 1"
  then have "invoked_ids (new_events self (snd (parse P self input done_cb))) = fns (ware self)"
    by (intro parse_invoked_all [of done_cb self input cst built P n']) simp_all
  with h show "count_list (invoked_ids (new_events self (snd (parse P self input done_cb)))) f = 1"
    by simp
qed

lemma example_instance_sentence_built:
  "fromCST (example_TextOM(''parser'' \<mapsto> Not_a_constructor)) example_sentence
     = Inr example_sentence_node"
  by (simp add: example_TextOM_lookup example_sentence_def example_word_def
        example_sentence_node_def fromCST_eval)

lemma example_instance_root_built:
  "fromCST (example_TextOM(''parser'' \<mapsto> Not_a_constructor)) example_cst = Inr example_root_node"
  using example_instance_sentence_built
  by (simp add: example_cst_def example_root_node_def fromCST.simps [of _ "CST _ _ _ _"]
        append_loop.simps js_index_def example_TextOM_lookup)

theorem use_attaches_once_witness:
  "1 \<in> set (fns (ware (example_instance [1, 2])))
   \<and> use example_plugins (example_instance [1, 2]) (JFunction 1) = (None, example_instance [1, 2])
   \<and> 1 \<notin> set (fns (ware (example_instance [2]))) \<and> attach (example_plugins 1) = None
   \<and> use example_plugins (example_instance [2]) (JFunction 1) = (None, example_instance [2, 1])
   \<and> use example_plugins (example_instance [2, 1]) (JFunction 1) = (None, example_instance [2, 1])
   \<and> 5 \<notin> set (fns (ware (example_instance [2]))) \<and> attach (example_plugins 5) = Some example_hook
   \<and> use example_plugins (example_instance [2]) (JFunction 5)
       = (None, (example_instance [2, 5, 1])\<lparr>trace := [Attached 5]\<rparr>)
   \<and> is_function (JFunction 0)
   \<and> thread (\<lambda>f. fn (example_plugins f)) (fns (ware (example_instance [1, 2, 5])))
        example_sentence_node (example_instance [1, 2, 5]) = Some example_replaced_node
   \<and> count_list (fns (ware (example_instance [1, 2, 5]))) 5 = 1
   \<and> count_list (invoked_ids (new_events (example_instance [1, 2, 5])
        (snd (run example_plugins (example_instance [1, 2, 5]) example_sentence_node (JFunction 0))))) 5
       = 1
   \<and> parser (example_instance [1, 2, 5]) ''Cat.'' = Inr example_cst
   \<and> fromCST (TextOM (example_instance [1, 2, 5])) example_cst = Inr example_root_node
   \<and> thread (\<lambda>f. fn (example_plugins f)) (fns (ware (example_instance [1, 2, 5])))
        example_root_node ((example_instance [1, 2, 5])\<lparr>trace :=
           trace (example_instance [1, 2, 5]) @ [Parsed ''Cat.'']\<rparr>) = Some example_replaced_node
   \<and> count_list (invoked_ids (new_events (example_instance [1, 2, 5])
        (snd (parse example_plugins (example_instance [1, 2, 5]) ''Cat.'' (JFunction 0))))) 5
       = 1"
proof -
  have a: "1 \<in> set (fns (ware (example_instance [1, 2])))"
    "1 \<notin> set (fns (ware (example_instance [2])))" "attach (example_plugins 1) = None"
    "5 \<notin> set (fns (ware (example_instance [2])))" "attach (example_plugins 5) = Some example_hook"
    by (auto simp: example_eval example_hook_def)
  have b: "is_function (JFunction 0)"
    "thread (\<lambda>f. fn (example_plugins f)) (fns (ware (example_instance [1, 2, 5])))
        example_sentence_node (example_instance [1, 2, 5]) = Some example_replaced_node"
    "count_list (fns (ware (example_instance [1, 2, 5]))) 5 = 1"
    by (simp_all add: example_eval example_replaced_node_def)
  note t1 = use_attaches_once
    [where self = "example_instance [1, 2]" and P = example_plugins and f = 1
       and hook = example_hook and node = example_sentence_node and done_cb = "JFunction 0"
       and input = "''Cat.''" and n = example_sentence_node
       and cst = example_cst and built = example_root_node and n' = example_replaced_node]
  note t2 = use_attaches_once
    [where self = "example_instance [2]" and P = example_plugins and f = 1
       and hook = example_hook and node = example_sentence_node and done_cb = "JFunction 0"
       and input = "''Cat.''" and n = example_sentence_node
       and cst = example_cst and built = example_root_node and n' = example_replaced_node]
  note t3 = use_attaches_once
    [where self = "example_instance [2]" and P = example_plugins and f = 5
       and hook = example_hook and node = example_sentence_node and done_cb = "JFunction 0"
       and input = "''Cat.''" and n = example_sentence_node
       and cst = example_cst and built = example_root_node and n' = example_replaced_node]
  note t4 = use_attaches_once
    [where self = "example_instance [1, 2, 5]" and P = example_plugins and f = 5
       and hook = example_hook and node = example_sentence_node and done_cb = "JFunction 0"
       and input = "''Cat.''" and n = example_replaced_node
       and cst = example_cst and built = example_root_node and n' = example_replaced_node]
  from t1 a(1) have c1: "use example_plugins (example_instance [1, 2]) (JFunction 1)
      = (None, example_instance [1, 2])"
    by blast
  from t2 a(2,3) have x1: "use example_plugins (example_instance [2]) (JFunction 1)
      = (None, (example_instance [2])\<lparr>ware := (ware (example_instance [2]))
           \<lparr>fns := fns (ware (example_instance [2])) @ [1]\<rparr>\<rparr>)"
    and x2: "use example_plugins (snd (use example_plugins (example_instance [2]) (JFunction 1)))
         (JFunction 1)
      = (None, snd (use example_plugins (example_instance [2]) (JFunction 1)))"
    by blast+
  from x1 have c2a: "use example_plugins (example_instance [2]) (JFunction 1)
      = (None, example_instance [2, 1])"
    by (simp add: example_instance_def)
  from x2 have c2b: "use example_plugins (example_instance [2, 1]) (JFunction 1)
      = (None, example_instance [2, 1])"
    unfolding c2a by simp
  note c2 = c2a c2b
  from t3 a(4,5) have "use example_plugins (example_instance [2]) (JFunction 5)
      = example_hook ((example_instance [2])\<lparr>ware := (ware (example_instance [2]))
           \<lparr>fns := fns (ware (example_instance [2])) @ [5]\<rparr>,
           trace := trace (example_instance [2]) @ [Attached 5]\<rparr>)"
    by blast
  then have c3: "use example_plugins (example_instance [2]) (JFunction 5)
       = (None, (example_instance [2, 5, 1])\<lparr>trace := [Attached 5]\<rparr>)"
    by (simp add: example_hook_def example_instance_def Retext_def use_def ware_use_def
          plain_plugins_def)
  from t4 b have c4: "count_list (invoked_ids (new_events (example_instance [1, 2, 5])
        (snd (run example_plugins (example_instance [1, 2, 5]) example_sentence_node (JFunction 0))))) 5
       = 1"
    by blast
  have om: "TextOM (example_instance [1, 2, 5]) = example_TextOM(''parser'' \<mapsto> Not_a_constructor)"
    by (simp add: example_instance_def Retext_def)
  have d: "parser (example_instance [1, 2, 5]) ''Cat.'' = Inr example_cst"
    "fromCST (TextOM (example_instance [1, 2, 5])) example_cst = Inr example_root_node"
    "thread (\<lambda>f. fn (example_plugins f)) (fns (ware (example_instance [1, 2, 5])))
        example_root_node ((example_instance [1, 2, 5])\<lparr>trace :=
           trace (example_instance [1, 2, 5]) @ [Parsed ''Cat.'']\<rparr>) = Some example_replaced_node"
    unfolding om
    by (simp_all add: example_eval example_parser_def example_instance_root_built)
  from t4 b(1,3) d have c5: "count_list (invoked_ids (new_events (example_instance [1, 2, 5])
        (snd (parse example_plugins (example_instance [1, 2, 5]) ''Cat.'' (JFunction 0))))) 5
       = 1"
    by blast
  from a b c1 c2 c3 c4 c5 d show ?thesis by blast
qed

text \<open>
  Claim C6. Given an argument that is not a function, \<open>use\<close>, \<open>run\<close> and \<open>parse\<close>
  throw a \<open>TypeError\<close> as the result of the call itself and leave the instance as it
  was: the registry is unchanged, the parser has not been invoked, no plugin has run and
  no callback has been invoked.
\<close>

theorem guards_throw_synchronously:
  "\<not> is_function v \<Longrightarrow>
     use P self v = (Some (TypeError (use_message v)), self)
     \<and> run P self node v = (Some (TypeError (run_message v)), self)
     \<and> parse P self input v = (Some (TypeError (parse_message v)), self)"
  by (cases v) (simp_all add: use_def run_def parse_def)

theorem guards_throw_synchronously_witness:
  "\<not> is_function JUndefined
   \<and> use example_plugins (example_instance [1]) JUndefined
       = (Some (TypeError
            ''Illegal invocation: `undefined` is not a valid argument for `Retext#use(plugin)`''),
          example_instance [1])
   \<and> run example_plugins (example_instance [1]) example_sentence_node JUndefined
       = (Some (TypeError (run_message JUndefined)), example_instance [1])
   \<and> parse example_plugins (example_instance [1]) ''Cat.'' JUndefined
       = (Some (TypeError (parse_message JUndefined)), example_instance [1])"
proof -
  have "\<not> is_function JUndefined" by simp
  from guards_throw_synchronously [OF this, of example_plugins "example_instance [1]"
      example_sentence_node "''Cat.''"]
  show ?thesis by (simp add: use_message_def)
qed

text \<open>
  Claim C7. When the parser throws on the input, \<open>parse\<close>, called with a callback
  that is a function, throws that same exception as the result of the call; no plugin
  and no callback is invoked.
\<close>

theorem parser_failure_propagates:
  "is_function done_cb \<Longrightarrow> parser self input = Inl e \<Longrightarrow>
     parse P self input done_cb = (Some e, self\<lparr>trace := trace self @ [Parsed input]\<rparr>)
     \<and> callbacks (new_events self (snd (parse P self input done_cb))) = []
     \<and> invoked_ids (new_events self (snd (parse P self input done_cb))) = []"
  by (simp add: parse_new_events) (simp add: parse_def)

theorem parser_failure_propagates_witness:
  "is_function (JFunction 0)
   \<and> parser (example_instance [1]) ''Dog'' = Inl (Thrown ''unexpected input'')
   \<and> parse example_plugins (example_instance [1]) ''Dog'' (JFunction 0)
       = (Some (Thrown ''unexpected input''), (example_instance [1])\<lparr>trace := [Parsed ''Dog'']\<rparr>)
   \<and> callbacks (new_events (example_instance [1])
        (snd (parse example_plugins (example_instance [1]) ''Dog'' (JFunction 0)))) = []"
proof -
  have a: "is_function (JFunction 0)" by simp
  have b: "parser (example_instance [1]) ''Dog'' = Inl (Thrown ''unexpected input'')"
    by (simp add: example_instance_def Retext_def example_parser_def)
  have c: "trace (example_instance [1]) = []"
    by (simp add: example_instance_def Retext_def)
  have d: "(example_instance [1])\<lparr>trace := trace (example_instance [1]) @ [Parsed ''Dog'']\<rparr>
      = (example_instance [1])\<lparr>trace := [Parsed ''Dog'']\<rparr>"
    unfolding c by simp
  from parser_failure_propagates [OF a b, of example_plugins] a b
  show ?thesis unfolding d by blast
qed

text \<open>
  End to end: parsing \<open>Cat.\<close> with the plugins \<open>1\<close> and \<open>2\<close> attached runs the
  parser, builds the tree, runs both plugins in order and hands the replacement node
  of plugin \<open>2\<close> to the callback.
\<close>

lemma parse_example:
  "parse example_plugins (example_instance [1, 2]) ''Cat.'' (JFunction 0) =
     (None, (example_instance [1, 2])\<lparr>trace :=
        [Parsed ''Cat.'', Invoked 1 example_root_node, Invoked 2 example_root_node,
         Called_back None (Some example_replaced_node)]\<rparr>)"
  using example_instance_root_built
  by (simp add: parse_def run_def example_eval example_parser_def)

end
